theory Spec2Isabelle
  imports Complex_Main "HOL-Library.Word"
begin

section \<open>Weighted random scheduling (package scheduling)\<close>

text \<open>
  Go's \<^verbatim>\<open>uint\<close> on a 64-bit platform: arithmetic wraps modulo \<open>2 ^ 64\<close>.
\<close>

type_synonym uint = "64 word"

text \<open>
  The process-wide generator of \<^verbatim>\<open>math/rand\<close>. Only what the callers can observe of
  it is kept: every value handed to \<^verbatim>\<open>rand.Seed\<close> so far (latest first) and the number
  of \<^verbatim>\<open>rand.Int()\<close> draws since the latest seeding. The number a draw yields is an input
  of the operation that draws (a natural number, as \<^verbatim>\<open>rand.Int()\<close> is never negative).
\<close>

record rand_src =
  seeds :: "int list"
  draws :: nat

definition rand_Seed :: "int \<Rightarrow> rand_src \<Rightarrow> rand_src" where
  "rand_Seed t g = g\<lparr>seeds := t # seeds g, draws := 0\<rparr>"

definition rand_Int :: "rand_src \<Rightarrow> rand_src" where
  "rand_Int g = g\<lparr>draws := Suc (draws g)\<rparr>"

text \<open>
  \<^verbatim>\<open>RandomScheduling\<close>: the embedded \<^verbatim>\<open>Scheduling\<close> contributes \<open>Candidates\<close>; candidates
  are interface values compared by identity, so they are an abstract type \<open>'c\<close> and the
  method \<^verbatim>\<open>CandidateWeight()\<close> is a function \<open>wt\<close> passed to \<open>Start\<close>.
\<close>

record 'c RandomScheduling =
  Candidates :: "'c list"
  array :: "'c list"
  count :: uint

definition newRandomScheduling :: "'c RandomScheduling" where
  "newRandomScheduling = \<lparr>Candidates = [], array = [], count = 0\<rparr>"

text \<open>A freshly created instance to which the caller has given its candidates.\<close>

definition freshWith :: "'c list \<Rightarrow> 'c RandomScheduling" where
  "freshWith cs = newRandomScheduling\<lparr>Candidates := cs\<rparr>"

text \<open>The weight normalisation both loops of \<^verbatim>\<open>Start\<close> perform.\<close>

definition normWeight :: "uint \<Rightarrow> uint" where
  "normWeight weight = (if weight = 0 then 1 else if weight > 10000 then 10000 else weight)"

text \<open>The first loop of \<^verbatim>\<open>Start\<close>: \<^verbatim>\<open>sumWeight += weight\<close> on \<^verbatim>\<open>uint\<close>.\<close>

definition sumWeightOf :: "('c \<Rightarrow> uint) \<Rightarrow> 'c list \<Rightarrow> uint" where
  "sumWeightOf wt cs = fold (\<lambda>c sumWeight. sumWeight + normWeight (wt c)) cs 0"

text \<open>
  \<^verbatim>\<open>math.Round(float64(a) / float64(b))\<close> for unsigned \<open>a\<close>, \<open>b\<close> with \<open>b > 0\<close>:
  rounding to the nearest integer, halves away from zero, which on non-negative values is
  \<open>\<lfloor>a / b + 1/2\<rfloor>\<close>. The float computation yields exactly this integer for every
  \<open>a \<le> 10 ^ 8\<close> and \<open>b > 1000\<close> (the only values \<^verbatim>\<open>Start\<close> passes): \<open>a\<close> is exact
  in a float64 and the quotient is below \<open>10 ^ 5 < 2 ^ 17\<close>; for \<open>b < 2 ^ 36\<close> the quotient
  differs from every half-integer it does not equal by at least \<open>1 / (2 b)\<close>, more than
  half the spacing of float64 values below \<open>2 ^ 17\<close>, so rounding the quotient to a float64
  never moves it onto or across a half-integer; for larger \<open>b\<close> the quotient and its
  float64 rounding are both below \<open>1/2\<close>.
\<close>

definition roundDiv :: "nat \<Rightarrow> nat \<Rightarrow> nat" where
  "roundDiv a b = (2 * a + b) div (2 * b)"

text \<open>The expansion count of one candidate (its normalised weight is \<open>weight\<close>).\<close>

definition expandCount :: "uint \<Rightarrow> uint \<Rightarrow> uint" where
  "expandCount sumWeight weight =
     (if sumWeight \<le> 1000 then weight
      else of_nat (roundDiv (unat (weight * 10000)) (unat sumWeight)))"

text \<open>
  The body of the second loop: \<open>count\<close> appends of \<open>c\<close> to \<open>array\<close>, then
  \<^verbatim>\<open>this.count += count\<close>.
\<close>

definition expandStep ::
  "('c \<Rightarrow> uint) \<Rightarrow> uint \<Rightarrow> 'c \<Rightarrow> 'c RandomScheduling \<Rightarrow> 'c RandomScheduling" where
  "expandStep wt sumWeight c this =
     (let cnt = expandCount sumWeight (normWeight (wt c))
      in this\<lparr>array := array this @ replicate (unat cnt) c, count := count this + cnt\<rparr>)"

text \<open>
  \<^verbatim>\<open>Start\<close>, with the time \<open>now\<close> (\<^verbatim>\<open>time.Now().UnixNano()\<close>) as an input. Neither
  \<open>array\<close> nor \<open>count\<close> is reset: the loop appends to what is there.
\<close>

definition Start ::
  "('c \<Rightarrow> uint) \<Rightarrow> int \<Rightarrow> 'c RandomScheduling \<times> rand_src \<Rightarrow> 'c RandomScheduling \<times> rand_src" where
  "Start wt now = (\<lambda>(this, g).
     let sumWeight = sumWeightOf wt (Candidates this)
     in if sumWeight = 0 then (this, g)
        else (fold (expandStep wt sumWeight) (Candidates this) this, rand_Seed now g))"

text \<open>
  Go's \<^verbatim>\<open>%\<close> on \<^verbatim>\<open>int\<close> truncates towards zero: the result has the sign of the dividend.
\<close>

definition go_rem :: "int \<Rightarrow> int \<Rightarrow> int" where
  "go_rem a b = sgn a * (\<bar>a\<bar> mod \<bar>b\<bar>)"

datatype panic = IndexOutOfRange

text \<open>
  \<^verbatim>\<open>Next\<close>, with the value \<open>r\<close> of \<^verbatim>\<open>rand.Int()\<close> as an input. \<^verbatim>\<open>int(this.count)\<close>
  reads the 64 bits as a signed number; indexing the slice outside its bounds panics.
  \<open>Inr None\<close> is the \<^verbatim>\<open>nil\<close> result.
\<close>

definition Next ::
  "nat \<Rightarrow> 'c RandomScheduling \<times> rand_src \<Rightarrow> (panic + 'c option) \<times> rand_src" where
  "Next r = (\<lambda>(this, g).
     if count this = 0 then (Inr None, g)
     else
       let index = go_rem (int r) (sint (count this))
       in if 0 \<le> index \<and> index < int (length (array this))
          then (Inr (Some (array this ! nat index)), rand_Int g)
          else (Inl IndexOutOfRange, rand_Int g))"

text \<open>
  A sequence of \<^verbatim>\<open>Start\<close> calls on one instance; before each call the caller may have
  replaced the candidate list and the weights, so each call comes with its own
  \<open>(wt, now, cs)\<close>.
\<close>

definition restart ::
  "('c \<Rightarrow> uint) \<times> int \<times> 'c list \<Rightarrow> 'c RandomScheduling \<times> rand_src
     \<Rightarrow> 'c RandomScheduling \<times> rand_src" where
  "restart = (\<lambda>(wt, now, cs) (this, g). Start wt now (this\<lparr>Candidates := cs\<rparr>, g))"

definition runStarts ::
  "(('c \<Rightarrow> uint) \<times> int \<times> 'c list) list \<Rightarrow> 'c RandomScheduling \<times> rand_src
     \<Rightarrow> 'c RandomScheduling \<times> rand_src" where
  "runStarts calls st = fold restart calls st"

text \<open>The expansion the second loop appends, as one list.\<close>

definition expansion :: "('c \<Rightarrow> uint) \<Rightarrow> uint \<Rightarrow> 'c list \<Rightarrow> 'c list" where
  "expansion wt sumWeight cs =
     concat (map (\<lambda>c. replicate (unat (expandCount sumWeight (normWeight (wt c)))) c) cs)"

text \<open>
  The candidate statistics in natural numbers: the normalised weight of a candidate and
  the sum of the normalised weights of a list, without wrap-around.
\<close>

definition natWeight :: "('c \<Rightarrow> uint) \<Rightarrow> 'c \<Rightarrow> nat" where
  "natWeight wt c = unat (normWeight (wt c))"

definition natSum :: "('c \<Rightarrow> uint) \<Rightarrow> 'c list \<Rightarrow> nat" where
  "natSum wt cs = sum_list (map (natWeight wt) cs)"

definition natCount :: "nat \<Rightarrow> nat \<Rightarrow> nat" where
  "natCount S w = (if S \<le> 1000 then w else roundDiv (w * 10000) S)"

text \<open>The invariant tying \<open>count\<close> to the slice: equal modulo \<open>2 ^ 64\<close>.\<close>

definition countInv :: "'c RandomScheduling \<Rightarrow> bool" where
  "countInv this = (count this = of_nat (length (array this)))"

subsection \<open>The expansion as the specification words it\<close>

text \<open>
  The normalised weight (0 mapped to 1, above 10000 clamped to 10000), the sum of the
  normalised weights, and the number of slots of a candidate: the weight itself when the
  sum is at most 1000, and \<open>round (weight * 10000 / sumWeight)\<close> over the reals otherwise.
\<close>

definition specWeight :: "nat \<Rightarrow> nat" where
  "specWeight w = (if w = 0 then 1 else min w 10000)"

definition specSum :: "('c \<Rightarrow> uint) \<Rightarrow> 'c list \<Rightarrow> nat" where
  "specSum wt cs = (\<Sum>c\<leftarrow>cs. specWeight (unat (wt c)))"

definition specCount :: "nat \<Rightarrow> nat \<Rightarrow> nat" where
  "specCount S w = (if S \<le> 1000 then w else nat (round (real (w * 10000) / real S)))"

section \<open>Server configuration (package teaconfigs)\<close>

text \<open>
  \<^verbatim>\<open>ServerBackendConfig\<close> is declared in another file of the package; the fields
  here are the ones \<^verbatim>\<open>NextBackend\<close> and the online action read and write.
\<close>

record ServerBackendConfig =
  Id_backend :: string
  On_backend :: bool
  IsDown :: bool
  CurrentFails :: int

text \<open>
  Modelled from the spec: the declaration of \<^verbatim>\<open>FastcgiConfig\<close> is missing; the
  specification speaks of fastcgi entries that are "on and not down", so an entry carries
  these two flags. \<^verbatim>\<open>NextFastcgi\<close> reads neither.
\<close>

record FastcgiConfig =
  Pass :: string
  On_fastcgi :: bool
  IsDown_fastcgi :: bool

text \<open>The fields of \<^verbatim>\<open>ServerConfig\<close> that the functions below use.\<close>

record ServerConfig =
  On_server :: bool
  Id_server :: string
  Name :: "string list"
  Backends :: "ServerBackendConfig list"
  Filename :: string
  Fastcgi :: "FastcgiConfig list"

text \<open>
  \<^verbatim>\<open>NextBackend\<close>, with the time and the value of \<^verbatim>\<open>rand.Int()\<close> as inputs. Both
  operands of \<^verbatim>\<open>%\<close> are non-negative and the divisor is positive, so the index is
  \<open>r mod countBackends\<close>, inside \<open>availableBackends\<close>.
\<close>

definition NextBackend ::
  "int \<Rightarrow> nat \<Rightarrow> ServerConfig \<Rightarrow> rand_src \<Rightarrow> ServerBackendConfig option \<times> rand_src" where
  "NextBackend now r this g =
     (if length (Backends this) = 0 then (None, g)
      else
        let availableBackends =
              filter (\<lambda>backend. On_backend backend \<and> \<not> IsDown backend) (Backends this);
            countBackends = length availableBackends
        in if countBackends = 0 then (None, g)
           else
             let g1 = rand_Seed now g;
                 index = r mod countBackends
             in (Some (availableBackends ! index), rand_Int g1))"

definition NextFastcgi ::
  "int \<Rightarrow> nat \<Rightarrow> ServerConfig \<Rightarrow> rand_src \<Rightarrow> FastcgiConfig option \<times> rand_src" where
  "NextFastcgi now r this g =
     (let countFastcgi = length (Fastcgi this)
      in if countFastcgi = 0 then (None, g)
         else
           let g1 = rand_Seed now g;
               index = r mod countFastcgi
           in (Some (Fastcgi this ! index), rand_Int g1))"

text \<open>
  \<^verbatim>\<open>strings.Split(s, sep)\<close> for a one-byte separator: the pieces between the
  separators, \<open>n + 1\<close> pieces for \<open>n\<close> separators, so the empty string gives one empty
  piece. (The last case of the inner \<open>case\<close> is never taken: the result is never empty.)
\<close>

fun strings_Split :: "string \<Rightarrow> char \<Rightarrow> string list" where
  "strings_Split [] sep = [[]]"
| "strings_Split (c # cs) sep =
     (if c = sep then [] # strings_Split cs sep
      else (case strings_Split cs sep of
              p # ps \<Rightarrow> (c # p) # ps
            | [] \<Rightarrow> [[c]]))"

text \<open>
  The inner loop of \<^verbatim>\<open>MatchName\<close> over \<open>pieces2\<close>, reading \<open>pieces1\<close> at the same
  index; it runs only when both have the same length, so \<open>pieces1\<close> is never exhausted
  first (that case would be an index out of range, and is given \<open>False\<close>).
\<close>

fun piecesMatch :: "string list \<Rightarrow> string list \<Rightarrow> bool" where
  "piecesMatch pieces1 [] = True"
| "piecesMatch [] (piece # pieces2) = False"
| "piecesMatch (p1 # pieces1) (piece # pieces2) =
     (if p1 \<noteq> piece \<and> piece \<noteq> ''*'' \<and> piece \<noteq> '''' then False
      else piecesMatch pieces1 pieces2)"

text \<open>The loop of \<^verbatim>\<open>MatchName\<close> over the configured names.\<close>

fun matchNames :: "string \<Rightarrow> string list \<Rightarrow> string list \<Rightarrow> string \<times> bool" where
  "matchNames name pieces1 [] = ('''', False)"
| "matchNames name pieces1 (testName # rest) =
     (if length testName = 0 then matchNames name pieces1 rest
      else if name = testName then (testName, True)
      else
        let pieces2 = strings_Split testName (CHR ''.'')
        in if length pieces1 \<noteq> length pieces2 then matchNames name pieces1 rest
           else if piecesMatch pieces1 pieces2 then ('''', True)
           else matchNames name pieces1 rest)"

definition MatchName :: "ServerConfig \<Rightarrow> string \<Rightarrow> string \<times> bool" where
  "MatchName this name =
     (if length name = 0 then ('''', False)
      else matchNames name (strings_Split name (CHR ''.'')) (Name this))"

subsection \<open>Name matching as the specification words it\<close>

text \<open>
  A host matches a configured name segment-wise when both have the same number of
  dot-separated segments and every segment of the configured name equals the host's
  segment at that place, or is \<open>*\<close>, or is empty.
\<close>

definition segmentMatch :: "string \<Rightarrow> string \<Rightarrow> bool" where
  "segmentMatch host testName =
     list_all2 (\<lambda>h p. h = p \<or> p = ''*'' \<or> p = '''')
       (strings_Split host (CHR ''.'')) (strings_Split testName (CHR ''.''))"

text \<open>A configured name the loop stops at: not empty, and equal to the host or matching it.\<close>

definition nameHit :: "string \<Rightarrow> string \<Rightarrow> bool" where
  "nameHit host testName = (testName \<noteq> [] \<and> (testName = host \<or> segmentMatch host testName))"

section \<open>The online action (package backend)\<close>

text \<open>
  \<^verbatim>\<open>NewServerConfigFromFile\<close>: reading and parsing the file is an input \<open>readYAML\<close>
  (an error message or the parsed configuration). Replacing empty lists by empty lists,
  as the function does for three fields, changes nothing here.
\<close>

definition NewServerConfigFromFile ::
  "(string \<Rightarrow> string + ServerConfig) \<Rightarrow> string \<Rightarrow> string + ServerConfig" where
  "NewServerConfigFromFile readYAML filename =
     (if length filename = 0 then Inl ''filename should not be empty''
      else (case readYAML filename of
              Inl err \<Rightarrow> Inl err
            | Inr config \<Rightarrow> Inr (config\<lparr>Filename := filename\<rparr>)))"

text \<open>
  The running proxy as the action sees it: backends are objects reached through
  pointers, so they live in a store indexed by address, and the action writes through the
  pointer it found. \<^verbatim>\<open>SetupScheduling\<close> belongs to package teaproxy: each call is
  recorded with its server and its argument.
\<close>

record 'srv runtime =
  backendAt :: "nat \<Rightarrow> ServerBackendConfig"
  setupCalls :: "('srv \<times> bool) list"

record params =
  Server :: string
  LocationId :: string
  Websocket :: bool
  BackendId :: string

datatype response = Success | Fail string

text \<open>
  \<^verbatim>\<open>OnlineAction.Run\<close>. The three lookups \<^verbatim>\<open>teaproxy.FindServer\<close>,
  \<^verbatim>\<open>FindBackendList\<close> and \<^verbatim>\<open>FindBackend\<close> belong to other packages and are
  parameters; each may read the runtime and yields \<open>None\<close> for \<^verbatim>\<open>nil\<close>. \<^verbatim>\<open>this.Fail\<close>
  ends the action with the message.
\<close>

definition OnlineAction_Run ::
  "(string \<Rightarrow> string + ServerConfig) \<Rightarrow>
   ('srv runtime \<Rightarrow> string \<Rightarrow> 'srv option) \<Rightarrow>
   ('srv runtime \<Rightarrow> 'srv \<Rightarrow> string \<Rightarrow> bool \<Rightarrow> 'bl option) \<Rightarrow>
   ('srv runtime \<Rightarrow> 'bl \<Rightarrow> string \<Rightarrow> nat option) \<Rightarrow>
   params \<Rightarrow> 'srv runtime \<Rightarrow> 'srv runtime \<times> response" where
  "OnlineAction_Run readYAML FindServer FindBackendList FindBackend ps w =
     (case NewServerConfigFromFile readYAML (Server ps) of
        Inl err \<Rightarrow> (w, Fail err)
      | Inr server \<Rightarrow>
          (case FindServer w (Id_server server) of
             None \<Rightarrow> (w, Success)
           | Some runningServer \<Rightarrow>
               (case FindBackendList w runningServer (LocationId ps) (Websocket ps) of
                  None \<Rightarrow> (w, Success)
                | Some backendList \<Rightarrow>
                    (case FindBackend w backendList (BackendId ps) of
                       None \<Rightarrow> (w, Success)
                     | Some backend \<Rightarrow>
                         (w\<lparr>backendAt := (backendAt w)
                              (backend := (backendAt w backend)\<lparr>IsDown := False, CurrentFails := 0\<rparr>),
                            setupCalls := setupCalls w @ [(runningServer, False)]\<rparr>,
                          Success)))))"

section \<open>Properties of the scheduling\<close>

lemma fold_expandStep_array:
  "array (fold (expandStep wt sw) cs this) = array this @ expansion wt sw cs"
  by (induction cs arbitrary: this) (simp_all add: expansion_def expandStep_def Let_def)

lemma fold_expandStep_count:
  "count (fold (expandStep wt sw) cs this) = count this + of_nat (length (expansion wt sw cs))"
  by (induction cs arbitrary: this) (simp_all add: expansion_def expandStep_def Let_def)

lemma fold_expandStep_Candidates:
  "Candidates (fold (expandStep wt sw) cs this) = Candidates this"
  by (induction cs arbitrary: this) (simp_all add: expandStep_def Let_def)

lemma Start_countInv:
  "countInv this \<Longrightarrow> countInv (fst (Start wt now (this, g)))"
  by (simp add: Start_def Let_def countInv_def fold_expandStep_array fold_expandStep_count)

lemma restart_countInv:
  assumes "countInv (fst st)"
  shows "countInv (fst (restart call st))"
proof -
  obtain wt now cs where call: "call = (wt, now, cs)" by (cases call) auto
  obtain s g where st: "st = (s, g)" by (cases st) auto
  have "countInv (s\<lparr>Candidates := cs\<rparr>)" using assms st by (simp add: countInv_def)
  then show ?thesis unfolding call st restart_def by (simp add: Start_countInv)
qed

lemma runStarts_countInv:
  "countInv (fst st) \<Longrightarrow> countInv (fst (runStarts calls st))"
  unfolding runStarts_def
  by (induction calls arbitrary: st) (simp_all add: restart_countInv)

lemma new_countInv: "countInv newRandomScheduling"
  by (simp add: countInv_def newRandomScheduling_def)

lemma normWeight_spec: "unat (normWeight w) = specWeight (unat w)"
  apply (simp add: normWeight_def specWeight_def)
  apply (auto simp: word_less_nat_alt word_le_nat_alt unat_gt_0 unat_eq_0)
  done

lemma specWeight_bounds: "1 \<le> specWeight w \<and> specWeight w \<le> 10000"
  by (simp add: specWeight_def)

lemma natWeight_bounds: "1 \<le> natWeight wt c \<and> natWeight wt c \<le> 10000"
  by (simp add: natWeight_def normWeight_spec specWeight_def)

lemma sumWeightOf_fold:
  "fold (\<lambda>c sumWeight. sumWeight + normWeight (wt c)) cs a = a + of_nat (natSum wt cs)"
  by (induction cs arbitrary: a) (simp_all add: natSum_def natWeight_def)

lemma sumWeightOf_natSum: "sumWeightOf wt cs = of_nat (natSum wt cs)"
  by (simp add: sumWeightOf_def sumWeightOf_fold)

lemma natSum_le: "natSum wt cs \<le> 10000 * length cs"
  using natWeight_bounds[of wt]
  by (induction cs) (simp_all add: natSum_def add_le_mono)

lemma natSum_ge: "length cs \<le> natSum wt cs"
  unfolding natSum_def
proof (induction cs)
  case Nil
  then show ?case by simp
next
  case (Cons c cs)
  have "1 \<le> natWeight wt c" using natWeight_bounds[of wt c] by simp
  then show ?case using Cons by simp
qed

lemma natSum_spec: "natSum wt cs = specSum wt cs"
  by (induction cs) (simp_all add: natSum_def specSum_def natWeight_def normWeight_spec)

lemma roundDiv_round:
  assumes "0 < b"
  shows "int (roundDiv a b) = round (real a / real b)"
proof -
  have "real a / real b + 1 / 2 = real (2 * a + b) / real (2 * b)"
    using assms by (simp add: field_simps)
  then have "round (real a / real b) = \<lfloor>real (2 * a + b) / real (2 * b)\<rfloor>"
    by (simp add: round_def)
  also have "\<dots> = int ((2 * a + b) div (2 * b))"
    by (rule floor_divide_of_nat_eq)
  finally show ?thesis by (simp add: roundDiv_def)
qed

lemma natCount_spec: "0 < S \<Longrightarrow> natCount S w = specCount S w"
proof -
  assume "0 < S"
  then have "int (roundDiv (w * 10000) S) = round (real (w * 10000) / real S)"
    by (rule roundDiv_round)
  then have "roundDiv (w * 10000) S = nat (round (real (w * 10000) / real S))"
    by linarith
  then show ?thesis by (simp add: natCount_def specCount_def)
qed

lemma roundDiv_le: "roundDiv a b \<le> a + 1"
proof (cases "b = 0")
  case True
  then show ?thesis by (simp add: roundDiv_def)
next
  case False
  then have "2 * a + b \<le> (a + 1) * (2 * b)" by (cases b) simp_all
  then have "(2 * a + b) div (2 * b) \<le> a + 1"
    using False by (metis div_le_mono div_mult_self_is_m mult_pos_pos pos2 bot_nat_0.not_eq_extremum)
  then show ?thesis by (simp add: roundDiv_def)
qed

lemma roundDiv_twice: "2 * b * roundDiv a b \<le> 2 * a + b"
  by (simp add: roundDiv_def)

lemma roundDiv_pos: "0 < b \<Longrightarrow> b \<le> 2 * a \<Longrightarrow> 1 \<le> roundDiv a b"
proof -
  assume "0 < b" "b \<le> 2 * a"
  then have "0 < (2 * a + b) div (2 * b)" by (simp add: div_greater_zero_iff)
  then show ?thesis by (simp add: roundDiv_def)
qed

lemma roundDiv_zero: "2 * a < b \<Longrightarrow> roundDiv a b = 0"
  by (simp add: roundDiv_def)

lemma unat_expandCount:
  "unat (expandCount sw (normWeight w)) = natCount (unat sw) (unat (normWeight w))"
proof -
  let ?n = "unat (normWeight w)"
  have n: "?n \<le> 10000" by (simp add: normWeight_spec specWeight_def)
  have "unat (normWeight w) * unat (10000 :: uint) < 2 ^ LENGTH(64)"
    using n by simp
  then have "unat (normWeight w * 10000) = unat (normWeight w) * unat (10000 :: uint)"
    by (simp only: unat_mult_lem)
  then have m: "unat (normWeight w * 10000) = ?n * 10000" by simp
  have "roundDiv (?n * 10000) (unat sw) \<le> ?n * 10000 + 1" by (rule roundDiv_le)
  then have "roundDiv (?n * 10000) (unat sw) < 2 ^ 64" using n by simp
  then have r: "unat (of_nat (roundDiv (?n * 10000) (unat sw)) :: uint) = roundDiv (?n * 10000) (unat sw)"
    by (simp add: unat_of_nat)
  have le: "sw \<le> 1000 \<longleftrightarrow> unat sw \<le> 1000" by (simp add: word_le_nat_alt)
  show ?thesis by (simp add: expandCount_def natCount_def m r le)
qed

lemma expansion_nat:
  "expansion wt sw cs = concat (map (\<lambda>c. replicate (natCount (unat sw) (natWeight wt c)) c) cs)"
  by (simp add: expansion_def unat_expandCount natWeight_def)

lemma length_expansion:
  "length (expansion wt sw cs) = (\<Sum>c\<leftarrow>cs. natCount (unat sw) (natWeight wt c))"
  by (induction cs) (simp_all add: expansion_nat)

lemma set_expansion: "set (expansion wt sw cs) \<subseteq> set cs"
  by (auto simp: expansion_def)

lemma count_list_replicate: "count_list (replicate n x) y = (if x = y then n else 0)"
  by (induction n) auto

lemma count_list_expansion:
  "count_list (expansion wt sw cs) c = count_list cs c * natCount (unat sw) (natWeight wt c)"
  by (induction cs) (simp_all add: expansion_nat count_list_replicate)

lemma unat_sumWeightOf:
  assumes "10000 * length cs < 2 ^ 64"
  shows "unat (sumWeightOf wt cs) = natSum wt cs"
proof -
  have "natSum wt cs < 2 ^ 64" using natSum_le[of wt cs] assms by simp
  then show ?thesis by (simp add: sumWeightOf_natSum unat_of_nat)
qed

lemma Start_freshWith_array:
  assumes "10000 * length cs < 2 ^ 64"
  shows "array (fst (Start wt now (freshWith cs, g))) = expansion wt (sumWeightOf wt cs) cs"
proof (cases "sumWeightOf wt cs = 0")
  case True
  then have "unat (sumWeightOf wt cs) = 0" by simp
  then have "natSum wt cs = 0" using unat_sumWeightOf[OF assms] by simp
  then have "cs = []" using natSum_ge[of cs wt] by simp
  then show ?thesis by (simp add: Start_def freshWith_def newRandomScheduling_def expansion_def sumWeightOf_def)
next
  case False
  then show ?thesis
    by (simp add: Start_def freshWith_def newRandomScheduling_def fold_expandStep_array)
qed

lemma unat_count:
  assumes "countInv this" "length (array this) < 2 ^ 63"
  shows "unat (count this) = length (array this)"
proof -
  have "length (array this) < 2 ^ 64" using assms(2) by simp
  then show ?thesis using assms(1) by (simp add: countInv_def unat_of_nat)
qed

lemma sint_count:
  assumes "countInv this" "length (array this) < 2 ^ 63"
  shows "sint (count this) = int (length (array this))"
proof -
  have "int (length (array this)) < 2 ^ 63" using assms(2)
    by (metis of_nat_less_iff of_nat_numeral of_nat_power)
  moreover have "- (2 ^ 63) \<le> int (length (array this))" by simp
  ultimately have "signed_take_bit 63 (int (length (array this))) = int (length (array this))"
    by (rule signed_take_bit_int_eq_self[rotated])
  then show ?thesis using assms(1) by (simp add: countInv_def signed_of_nat)
qed

lemma go_rem_nonneg: "0 < n \<Longrightarrow> go_rem (int r) (int n) = int (r mod n)"
  by (simp add: go_rem_def zmod_int sgn_if)

lemma Next_in_range:
  assumes "countInv this" "length (array this) < 2 ^ 63"
  shows "fst (Next r (this, g)) =
           (if array this = [] then Inr None
            else Inr (Some (array this ! (r mod length (array this)))))"
proof (cases "array this = []")
  case True
  then show ?thesis using assms(1) by (simp add: Next_def countInv_def)
next
  case False
  then have pos: "0 < length (array this)" by simp
  have "unat (count this) \<noteq> 0" using unat_count[OF assms] pos by simp
  then have nz: "count this \<noteq> 0" by auto
  show ?thesis using False nz pos
    by (simp add: Next_def Let_def sint_count[OF assms] go_rem_nonneg)
qed

lemma sum_roundDiv:
  "2 * S * (\<Sum>c\<leftarrow>cs. roundDiv (f c * 10000) S) \<le> 20000 * (\<Sum>c\<leftarrow>cs. f c) + S * length cs"
proof (induction cs)
  case Nil
  then show ?case by simp
next
  case (Cons c cs)
  have "2 * S * roundDiv (f c * 10000) S \<le> 2 * (f c * 10000) + S" by (rule roundDiv_twice)
  then show ?case using Cons by (simp add: algebra_simps)
qed

lemma sum_natCount_small:
  "S \<le> 1000 \<Longrightarrow> (\<Sum>c\<leftarrow>cs. natCount S (natWeight wt c)) = natSum wt cs"
  by (simp add: natCount_def natSum_def)

lemma sum_natCount_bound:
  "2 * (\<Sum>c\<leftarrow>cs. natCount (natSum wt cs) (natWeight wt c)) \<le> 20000 + length cs"
proof (cases "natSum wt cs \<le> 1000")
  case True
  then show ?thesis by (simp add: sum_natCount_small)
next
  case False
  let ?S = "natSum wt cs"
  let ?L = "\<Sum>c\<leftarrow>cs. roundDiv (natWeight wt c * 10000) ?S"
  have pos: "0 < ?S" using False by simp
  have "2 * ?S * ?L \<le> 20000 * ?S + ?S * length cs"
    using sum_roundDiv[of ?S "natWeight wt" cs] by (simp add: natSum_def)
  then have "?S * (2 * ?L) \<le> ?S * (20000 + length cs)" by (simp add: algebra_simps)
  then have "2 * ?L \<le> 20000 + length cs" using pos by simp
  then show ?thesis using False by (simp add: natCount_def)
qed

lemma Start_freshWith_length:
  assumes "10000 * length cs < 2 ^ 64"
  shows "2 * length (array (fst (Start wt now (freshWith cs, g)))) \<le> 20000 + length cs"
  using sum_natCount_bound[of wt cs]
  by (simp add: Start_freshWith_array[OF assms] length_expansion unat_sumWeightOf[OF assms])

lemma freshWith_countInv: "countInv (freshWith cs)"
  by (simp add: countInv_def freshWith_def newRandomScheduling_def)

lemma Start_freshWith_small:
  assumes "10000 * length cs < 2 ^ 64"
  shows "length (array (fst (Start wt now (freshWith cs, g)))) < 2 ^ 63"
proof -
  have "length cs < 2 ^ 63" using assms by simp
  then show ?thesis using Start_freshWith_length[OF assms, of wt now g] by simp
qed

lemma sum_list_less:
  fixes f :: "'a \<Rightarrow> nat"
  assumes "cs \<noteq> []" "\<forall>c\<in>set cs. f c < k"
  shows "(\<Sum>c\<leftarrow>cs. f c) < length cs * k"
  using assms
proof (induction cs)
  case Nil
  then show ?case by simp
next
  case (Cons c cs)
  show ?case
  proof (cases "cs = []")
    case True
    then show ?thesis using Cons.prems by simp
  next
    case False
    then have "(\<Sum>c\<leftarrow>cs. f c) < length cs * k" using Cons by simp
    moreover have "f c < k" using Cons.prems by simp
    ultimately show ?thesis by simp
  qed
qed

lemma some_natCount_pos:
  assumes "cs \<noteq> []" "length cs \<le> 20000"
  shows "\<exists>c\<in>set cs. 0 < natCount (natSum wt cs) (natWeight wt c)"
proof (cases "natSum wt cs \<le> 1000")
  case True
  obtain c where c: "c \<in> set cs" using assms(1) by (cases cs) auto
  have "1 \<le> natWeight wt c" using natWeight_bounds[of wt c] by simp
  then have "0 < natCount (natSum wt cs) (natWeight wt c)" using True by (simp add: natCount_def)
  then show ?thesis using c by blast
next
  case False
  let ?S = "natSum wt cs"
  have pos: "0 < ?S" using False by simp
  show ?thesis
  proof (rule ccontr)
    assume "\<not> ?thesis"
    then have zero: "\<forall>c\<in>set cs. roundDiv (natWeight wt c * 10000) ?S = 0"
      using False by (simp add: natCount_def)
    have "\<forall>c\<in>set cs. 20000 * natWeight wt c < ?S"
    proof
      fix c assume "c \<in> set cs"
      then have "roundDiv (natWeight wt c * 10000) ?S = 0" using zero by simp
      then have "\<not> 1 \<le> roundDiv (natWeight wt c * 10000) ?S" by simp
      then have "\<not> ?S \<le> 2 * (natWeight wt c * 10000)" using roundDiv_pos[OF pos] by blast
      then show "20000 * natWeight wt c < ?S" by simp
    qed
    then have "(\<Sum>c\<leftarrow>cs. 20000 * natWeight wt c) < length cs * ?S"
      using sum_list_less[OF assms(1), of "\<lambda>c. 20000 * natWeight wt c" ?S] by simp
    then have "20000 * ?S < length cs * ?S"
      by (simp add: natSum_def sum_list_const_mult)
    moreover have "length cs * ?S \<le> 20000 * ?S" using assms(2) by simp
    ultimately show False by simp
  qed
qed

lemma Start_freshWith_nonempty:
  assumes "cs \<noteq> []" "length cs \<le> 20000"
  shows "array (fst (Start wt now (freshWith cs, g))) \<noteq> []"
proof -
  have small: "10000 * length cs < 2 ^ 64" using assms(2) by simp
  obtain c where c: "c \<in> set cs" "0 < natCount (natSum wt cs) (natWeight wt c)"
    using some_natCount_pos[OF assms] by blast
  have "count_list cs c \<noteq> 0" using c(1) by (simp add: count_list_0_iff)
  then have "0 < count_list (expansion wt (sumWeightOf wt cs) cs) c"
    using c(2) by (simp add: count_list_expansion unat_sumWeightOf[OF small])
  then have "expansion wt (sumWeightOf wt cs) cs \<noteq> []" by auto
  then show ?thesis by (simp add: Start_freshWith_array[OF small])
qed

lemma Start_freshWith_subset:
  "set (array (fst (Start wt now (freshWith cs, g)))) \<subseteq> set cs"
  using set_expansion[of wt _ cs]
  by (simp add: Start_def Let_def freshWith_def newRandomScheduling_def fold_expandStep_array)

lemma Start_array_subset:
  "set (array (fst (Start wt now (s, g)))) \<subseteq> set (array s) \<union> set (Candidates s)"
  using set_expansion[of wt _ "Candidates s"]
  by (auto simp: Start_def Let_def fold_expandStep_array)

lemma restart_array_subset:
  "set (array (fst (restart call st))) \<subseteq> set (array (fst st)) \<union> set (snd (snd call))"
proof -
  obtain wt now cs where call: "call = (wt, now, cs)" by (cases call) auto
  obtain s g where st: "st = (s, g)" by (cases st) auto
  show ?thesis unfolding call st restart_def
    using Start_array_subset[of wt now "s\<lparr>Candidates := cs\<rparr>" g] by simp
qed

lemma runStarts_array_subset:
  "set (array (fst (runStarts calls st))) \<subseteq>
     set (array (fst st)) \<union> (\<Union>call\<in>set calls. set (snd (snd call)))"
  unfolding runStarts_def
proof (induction calls arbitrary: st)
  case Nil
  then show ?case by simp
next
  case (Cons call calls)
  show ?case using Cons[of "restart call st"] restart_array_subset[of call st] by auto
qed

lemma Next_Some_mem:
  assumes "fst (Next r st) = Inr (Some c)"
  shows "c \<in> set (array (fst st))"
proof -
  obtain s g where st: "st = (s, g)" by (cases st) auto
  show ?thesis using assms unfolding st
    by (auto simp: Next_def Let_def split: if_splits)
qed

lemma natSum_all_one:
  "\<forall>c\<in>set cs. natWeight wt c = 1 \<Longrightarrow> natSum wt cs = length cs"
  by (induction cs) (simp_all add: natSum_def)

lemma Start_array_append:
  "array (fst (Start wt now (s, g))) =
     array s @ (if sumWeightOf wt (Candidates s) = 0 then []
                else expansion wt (sumWeightOf wt (Candidates s)) (Candidates s))"
  by (simp add: Start_def Let_def fold_expandStep_array)

lemma restart_prefix: "\<exists>zs. array (fst (restart call st)) = array (fst st) @ zs"
proof -
  obtain wt now cs where call: "call = (wt, now, cs)" by (cases call) auto
  obtain s g where st: "st = (s, g)" by (cases st) auto
  show ?thesis unfolding call st restart_def
    using Start_array_append[of wt now "s\<lparr>Candidates := cs\<rparr>" g] by simp
qed

lemma runStarts_prefix: "\<exists>zs. array (fst (runStarts calls st)) = array (fst st) @ zs"
  unfolding runStarts_def
proof (induction calls arbitrary: st)
  case Nil
  then show ?case by simp
next
  case (Cons call calls)
  obtain ys where ys: "array (fst (restart call st)) = array (fst st) @ ys"
    using restart_prefix by blast
  obtain zs where "array (fst (fold restart calls (restart call st))) = array (fst (restart call st)) @ zs"
    using Cons by blast
  then show ?case using ys by simp
qed

lemma runStarts_append: "runStarts (calls @ later) st = runStarts later (runStarts calls st)"
  by (simp add: runStarts_def)

lemma Next_earlier_entry:
  assumes i: "i < length (array (fst (runStarts calls (newRandomScheduling, g))))"
    and small: "length (array (fst (runStarts (calls @ later) (newRandomScheduling, g)))) < 2 ^ 63"
  shows "fst (Next i (runStarts (calls @ later) (newRandomScheduling, g))) =
           Inr (Some (array (fst (runStarts calls (newRandomScheduling, g))) ! i))"
proof -
  let ?before = "runStarts calls (newRandomScheduling, g)"
  obtain s g' where st: "runStarts (calls @ later) (newRandomScheduling, g) = (s, g')"
    by (cases "runStarts (calls @ later) (newRandomScheduling, g)") auto
  have "countInv (fst (runStarts (calls @ later) (newRandomScheduling, g)))"
    by (rule runStarts_countInv) (simp add: new_countInv)
  then have inv: "countInv s" by (simp add: st)
  have len: "length (array s) < 2 ^ 63" using small by (simp add: st)
  obtain zs where "array (fst (runStarts later ?before)) = array (fst ?before) @ zs"
    using runStarts_prefix by blast
  then have arr: "array s = array (fst ?before) @ zs" using st by (simp add: runStarts_append)
  then have il: "i < length (array s)" using i by simp
  then have ne: "array s \<noteq> []" by auto
  have "array s ! i = array (fst ?before) ! i" using arr i by (simp add: nth_append)
  then show ?thesis unfolding st
    using Next_in_range[OF inv len, of i g'] ne il by simp
qed

lemma roundDiv_le_twice: "b * roundDiv a b \<le> 2 * a"
proof (cases "2 * a < b")
  case True
  then show ?thesis by (simp add: roundDiv_zero)
next
  case False
  have "2 * b * roundDiv a b \<le> 2 * a + b" by (rule roundDiv_twice)
  then have "2 * (b * roundDiv a b) \<le> 2 * (2 * a)" using False by simp
  then show ?thesis by simp
qed

lemma sum_roundDiv_const:
  "S * (\<Sum>c\<leftarrow>cs. roundDiv (f c * 10000) S) \<le> 20000 * (\<Sum>c\<leftarrow>cs. f c)"
proof (induction cs)
  case Nil
  then show ?case by simp
next
  case (Cons c cs)
  have "S * roundDiv (f c * 10000) S \<le> 2 * (f c * 10000)" by (rule roundDiv_le_twice)
  then show ?case using Cons by (simp add: algebra_simps)
qed

lemma sum_natCount_const:
  "(\<Sum>c\<leftarrow>cs. natCount (natSum wt cs) (natWeight wt c)) \<le> 20000"
proof (cases "natSum wt cs \<le> 1000")
  case True
  then show ?thesis by (simp add: sum_natCount_small)
next
  case False
  let ?S = "natSum wt cs"
  let ?L = "\<Sum>c\<leftarrow>cs. roundDiv (natWeight wt c * 10000) ?S"
  have pos: "0 < ?S" using False by simp
  have "?S * ?L \<le> 20000 * ?S"
    using sum_roundDiv_const[of ?S "natWeight wt" cs] by (simp add: natSum_def)
  then have "?S * ?L \<le> ?S * 20000" by (simp add: mult.commute)
  then have "?L \<le> 20000" using pos by simp
  then show ?thesis using False by (simp add: natCount_def)
qed

subsection \<open>Claims about the scheduling\<close>

text \<open>
  C1 (as amended). \<^verbatim>\<open>Start\<close> appends to \<open>array\<close> and never clears it: the array
  after a \<^verbatim>\<open>Start\<close> is the array before it followed by the expansion of the current
  candidates. On a freshly created instance, after its one \<^verbatim>\<open>Start\<close>, every candidate
  \<^verbatim>\<open>Next\<close> returns is a member of the candidate list of that \<^verbatim>\<open>Start\<close>. On an
  instance started several times, every candidate \<^verbatim>\<open>Next\<close> returns is a member of the
  candidate list of some \<^verbatim>\<open>Start\<close> so far, not necessarily of the latest: whatever
  further \<^verbatim>\<open>Start\<close> calls follow, the entry an earlier \<^verbatim>\<open>Start\<close> left at index
  \<open>i\<close> is what \<^verbatim>\<open>Next\<close> returns for the draw \<open>i\<close>.
\<close>

theorem Next_member_of_started_candidates:
  "array (fst (Start wt now (s, g))) =
     array s @ (if sumWeightOf wt (Candidates s) = 0 then []
                else expansion wt (sumWeightOf wt (Candidates s)) (Candidates s))
 \<and> (fst (Next r (Start wt now (freshWith cs, g))) = Inr (Some c) \<longrightarrow> c \<in> set cs)
 \<and> (fst (Next r (runStarts calls (newRandomScheduling, g))) = Inr (Some c) \<longrightarrow>
       c \<in> (\<Union>call\<in>set calls. set (snd (snd call))))
 \<and> (i < length (array (fst (runStarts calls (newRandomScheduling, g))))
      \<and> length (array (fst (runStarts (calls @ later) (newRandomScheduling, g)))) < 2 ^ 63 \<longrightarrow>
       fst (Next i (runStarts (calls @ later) (newRandomScheduling, g))) =
         Inr (Some (array (fst (runStarts calls (newRandomScheduling, g))) ! i)))"
proof -
  have 1: "c \<in> set cs" if "fst (Next r (Start wt now (freshWith cs, g))) = Inr (Some c)"
    using Next_Some_mem[OF that] Start_freshWith_subset[of wt now cs g] by auto
  have 2: "c \<in> (\<Union>call\<in>set calls. set (snd (snd call)))"
    if "fst (Next r (runStarts calls (newRandomScheduling, g))) = Inr (Some c)"
    using Next_Some_mem[OF that] runStarts_array_subset[of calls "(newRandomScheduling, g)"]
    by (auto simp: newRandomScheduling_def)
  show ?thesis using Start_array_append[of wt now s g] 1 2 Next_earlier_entry[of i calls g later]
    by blast
qed

theorem Next_member_of_started_candidates_witness:
  "array (fst (Start of_nat 1 (\<lparr>Candidates = [2::nat], array = [1], count = 1\<rparr>, \<lparr>seeds = [0], draws = 0\<rparr>)))
     = [1, 2, 2]
 \<and> fst (Next 0 (Start of_nat 0 (freshWith [5::nat], \<lparr>seeds = [], draws = 0\<rparr>))) = Inr (Some 5)
 \<and> (5::nat) \<in> set [5]
 \<and> fst (Next 1 (runStarts [(of_nat, 0, [1::nat]), (of_nat, 1, [2])]
        (newRandomScheduling, \<lparr>seeds = [], draws = 0\<rparr>))) = Inr (Some 2)
 \<and> (2::nat) \<in> (\<Union>call\<in>set [(of_nat :: nat \<Rightarrow> uint, 0::int, [1::nat]), (of_nat, 1, [2])].
                 set (snd (snd call)))
 \<and> 0 < length (array (fst (runStarts [(of_nat, 0, [1::nat])]
        (newRandomScheduling, \<lparr>seeds = [], draws = 0\<rparr>))))
 \<and> length (array (fst (runStarts ([(of_nat, 0, [1::nat])] @ [(of_nat, 1, [2])])
        (newRandomScheduling, \<lparr>seeds = [], draws = 0\<rparr>)))) < 2 ^ 63
 \<and> fst (Next 0 (runStarts ([(of_nat, 0, [1::nat])] @ [(of_nat, 1, [2])])
        (newRandomScheduling, \<lparr>seeds = [], draws = 0\<rparr>))) =
     Inr (Some (array (fst (runStarts [(of_nat, 0, [1::nat])]
        (newRandomScheduling, \<lparr>seeds = [], draws = 0\<rparr>))) ! 0))
 \<and> array (fst (runStarts [(of_nat, 0, [1::nat])]
        (newRandomScheduling, \<lparr>seeds = [], draws = 0\<rparr>))) ! 0 = 1"
proof -
  let ?g = "\<lparr>seeds = [], draws = 0\<rparr>"
  let ?c1 = "(of_nat :: nat \<Rightarrow> uint, 0::int, [1::nat])"
  let ?c2 = "(of_nat :: nat \<Rightarrow> uint, 1::int, [2::nat])"
  have e: "expansion of_nat (sumWeightOf of_nat [2::nat]) [2::nat] = [2, 2]"
    by code_simp
  have nz: "sumWeightOf of_nat [2::nat] \<noteq> 0" by code_simp
  have a: "fst (Next 0 (Start of_nat 0 (freshWith [5::nat], ?g))) = Inr (Some 5)"
    by code_simp
  have b: "fst (Next 1 (runStarts [?c1, ?c2] (newRandomScheduling, ?g))) = Inr (Some 2)"
    by code_simp
  have arr1: "array (fst (runStarts [?c1] (newRandomScheduling, ?g))) = [1]"
    by code_simp
  have arr2: "array (fst (runStarts ([?c1] @ [?c2]) (newRandomScheduling, ?g))) = [1, 2, 2]"
    by code_simp
  have h1: "0 < length (array (fst (runStarts [?c1] (newRandomScheduling, ?g))))"
    by (simp only: arr1) simp
  have h2: "length (array (fst (runStarts ([?c1] @ [?c2]) (newRandomScheduling, ?g)))) < 2 ^ 63"
    by (simp only: arr2) simp
  note A = Next_member_of_started_candidates[where wt = of_nat and now = 1
      and s = "\<lparr>Candidates = [2::nat], array = [1], count = 1\<rparr>"
      and g = "\<lparr>seeds = [0], draws = 0\<rparr>" and r = 0 and cs = "[5::nat]" and c = 5
      and calls = "[?c1]" and i = 0 and later = "[?c2]"]
  note B = Next_member_of_started_candidates[where wt = of_nat and now = 0
      and s = "freshWith [5::nat]" and g = ?g and r = 0 and cs = "[5::nat]" and c = 5
      and calls = "[?c1]" and i = 0 and later = "[?c2]"]
  note C = Next_member_of_started_candidates[where wt = of_nat and now = 0
      and s = "freshWith [5::nat]" and g = ?g and r = 1 and cs = "[5::nat]" and c = 2
      and calls = "[?c1, ?c2]" and i = 0 and later = "[]"]
  have s1: "array (fst (Start of_nat 1 (\<lparr>Candidates = [2::nat], array = [1], count = 1\<rparr>,
       \<lparr>seeds = [0], draws = 0\<rparr>))) = [1, 2, 2]"
    using A e nz by simp
  have s2: "(5::nat) \<in> set [5]" using B a by blast
  have s3: "(2::nat) \<in> (\<Union>call\<in>set [?c1, ?c2]. set (snd (snd call)))"
    using C b by blast
  have s4: "fst (Next 0 (runStarts ([?c1] @ [?c2]) (newRandomScheduling, ?g))) =
     Inr (Some (array (fst (runStarts [?c1] (newRandomScheduling, ?g))) ! 0))"
    using B h1 h2 by blast
  have s5: "array (fst (runStarts [?c1] (newRandomScheduling, ?g))) ! 0 = 1"
    by (simp only: arr1) simp
  show ?thesis using s1 a s2 b s3 h1 h2 s4 s5 by blast
qed

text \<open>
  As first stated (only members of the latest candidate list are returned) the property
  fails: an instance started with the candidate 1 and then with the candidate 2 returns
  the candidate 1 for the draw 0.
\<close>

theorem Next_returns_stale_candidate:
  "fst (Next 0 (runStarts [(of_nat, 0, [1::nat]), (of_nat, 1, [2])]
       (newRandomScheduling, \<lparr>seeds = [], draws = 0\<rparr>))) = Inr (Some 1)
 \<and> Candidates (fst (runStarts [(of_nat, 0, [1::nat]), (of_nat, 1, [2])]
       (newRandomScheduling, \<lparr>seeds = [], draws = 0\<rparr>))) = [2]
 \<and> (1::nat) \<notin> set [2]"
proof -
  have "fst (Next 0 (runStarts [(of_nat, 0, [1::nat]), (of_nat, 1, [2])]
       (newRandomScheduling, \<lparr>seeds = [], draws = 0\<rparr>))) = Inr (Some 1)"
    by code_simp
  moreover have "Candidates (fst (runStarts [(of_nat, 0, [1::nat]), (of_nat, 1, [2])]
       (newRandomScheduling, \<lparr>seeds = [], draws = 0\<rparr>))) = [2]"
    by code_simp
  ultimately show ?thesis by simp
qed

text \<open>
  C2. On a freshly created instance, \<^verbatim>\<open>Start\<close> builds the array in which every
  entry \<open>c\<close> of the candidate list is replaced by \<open>specCount\<close> copies of itself: its
  normalised weight when the sum of the normalised weights is at most 1000, and
  \<open>round (weight * 10000 / sumWeight)\<close> otherwise. So a candidate occurs in the array
  that number of times for each of its occurrences in the list, and the recorded count is
  the length of the array. The candidate list is one that fits in memory: its weights sum
  up without wrap-around.
\<close>

theorem Start_expansion_counts:
  assumes "10000 * length cs < 2 ^ 64"
  shows "array (fst (Start wt now (freshWith cs, g))) =
           concat (map (\<lambda>c. replicate (specCount (specSum wt cs) (specWeight (unat (wt c)))) c) cs)
       \<and> (\<forall>c. count_list (array (fst (Start wt now (freshWith cs, g)))) c =
                count_list cs c * specCount (specSum wt cs) (specWeight (unat (wt c))))
       \<and> unat (count (fst (Start wt now (freshWith cs, g)))) =
           length (array (fst (Start wt now (freshWith cs, g))))"
proof -
  let ?s = "fst (Start wt now (freshWith cs, g))"
  have arr: "array ?s = expansion wt (sumWeightOf wt cs) cs"
    by (rule Start_freshWith_array[OF assms])
  have S: "unat (sumWeightOf wt cs) = specSum wt cs"
    by (simp add: unat_sumWeightOf[OF assms] natSum_spec)
  have cnt: "natCount (specSum wt cs) (natWeight wt c) = specCount (specSum wt cs) (specWeight (unat (wt c)))"
    if "c \<in> set cs" for c
  proof -
    have "cs \<noteq> []" using that by auto
    then have "0 < length cs" by simp
    moreover have "length cs \<le> specSum wt cs"
      using natSum_ge[of cs wt] by (simp add: natSum_spec)
    ultimately have "0 < specSum wt cs" by linarith
    then show ?thesis by (simp add: natCount_spec natWeight_def normWeight_spec)
  qed
  have 1: "array ?s =
      concat (map (\<lambda>c. replicate (specCount (specSum wt cs) (specWeight (unat (wt c)))) c) cs)"
    unfolding arr expansion_nat S using cnt by (simp cong: map_cong)
  have 2: "count_list (array ?s) c =
      count_list cs c * specCount (specSum wt cs) (specWeight (unat (wt c)))" for c
  proof (cases "c \<in> set cs")
    case True
    then show ?thesis unfolding arr count_list_expansion S by (simp add: cnt)
  next
    case False
    then have "count_list cs c = 0" by (simp add: count_list_0_iff)
    then show ?thesis unfolding arr count_list_expansion by simp
  qed
  have "countInv ?s" by (rule Start_countInv) (rule freshWith_countInv)
  then have 3: "unat (count ?s) = length (array ?s)"
    using Start_freshWith_small[OF assms] by (rule unat_count)
  show ?thesis using 1 2 3 by blast
qed

theorem Start_expansion_counts_witness:
  "10000 * length [(1::nat, 0::uint), (2, 20000), (3, 5)] < (2::nat) ^ 64
 \<and> array (fst (Start snd 0 (freshWith [(1::nat, 0::uint), (2, 20000), (3, 5)], \<lparr>seeds = [], draws = 0\<rparr>))) =
     concat (map (\<lambda>c. replicate (specCount (specSum snd [(1::nat, 0::uint), (2, 20000), (3, 5)])
                                  (specWeight (unat (snd c)))) c)
               [(1::nat, 0::uint), (2, 20000), (3, 5)])
 \<and> (\<forall>c. count_list (array (fst (Start snd 0 (freshWith [(1::nat, 0::uint), (2, 20000), (3, 5)], \<lparr>seeds = [], draws = 0\<rparr>)))) c =
          count_list [(1::nat, 0::uint), (2, 20000), (3, 5)] c *
          specCount (specSum snd [(1::nat, 0::uint), (2, 20000), (3, 5)]) (specWeight (unat (snd c))))
 \<and> unat (count (fst (Start snd 0 (freshWith [(1::nat, 0::uint), (2, 20000), (3, 5)], \<lparr>seeds = [], draws = 0\<rparr>)))) =
     length (array (fst (Start snd 0 (freshWith [(1::nat, 0::uint), (2, 20000), (3, 5)], \<lparr>seeds = [], draws = 0\<rparr>))))
 \<and> specSum snd [(1::nat, 0::uint), (2, 20000), (3, 5)] = 10006
 \<and> specCount 10006 (specWeight (unat (20000::uint))) = 9994"
proof -
  have h: "10000 * length [(1::nat, 0::uint), (2, 20000), (3, 5)] < (2::nat) ^ 64" by simp
  have s: "specSum snd [(1::nat, 0::uint), (2, 20000), (3, 5)] = 10006"
    by (simp add: specSum_def specWeight_def)
  have "natCount 10006 10000 = specCount 10006 10000" by (rule natCount_spec) simp
  then have c: "specCount 10006 (specWeight (unat (20000::uint))) = 9994"
    by (simp add: specWeight_def natCount_def roundDiv_def)
  show ?thesis
    using h s c Start_expansion_counts[OF h, of snd 0 "\<lparr>seeds = [], draws = 0\<rparr>"]
    by blast
qed

text \<open>
  C4 (as amended). On a freshly created instance, the array \<^verbatim>\<open>Start\<close> builds holds at
  most 20000 entries, whatever the number of candidates and however skewed their weights
  (and at most \<open>10000 + n / 2\<close> for \<open>n\<close> candidates). Each count is rounded to the
  nearest integer, so a candidate with a share of one half of a slot gets a whole one;
  20000 candidates of weight 1 fill 20000 entries.
\<close>

theorem Start_array_bound:
  assumes "10000 * length cs < 2 ^ 64"
  shows "length (array (fst (Start wt now (freshWith cs, g)))) \<le> 20000
       \<and> 2 * length (array (fst (Start wt now (freshWith cs, g)))) \<le> 20000 + length cs"
proof -
  have "length (array (fst (Start wt now (freshWith cs, g)))) \<le> 20000"
    using sum_natCount_const[of wt cs]
    by (simp add: Start_freshWith_array[OF assms] length_expansion unat_sumWeightOf[OF assms])
  then show ?thesis using Start_freshWith_length[OF assms, of wt now g] by simp
qed

theorem Start_array_bound_witness:
  "10000 * length (zip [0..<20000] (replicate 20000 (1::uint))) < (2::nat) ^ 64
 \<and> length (array (fst (Start snd 0
        (freshWith (zip [0..<20000] (replicate 20000 (1::uint))), \<lparr>seeds = [], draws = 0\<rparr>))))
     \<le> 20000
 \<and> 2 * length (array (fst (Start snd 0
        (freshWith (zip [0..<20000] (replicate 20000 (1::uint))), \<lparr>seeds = [], draws = 0\<rparr>))))
     \<le> 20000 + length (zip [0..<20000] (replicate 20000 (1::uint)))
 \<and> length (array (fst (Start snd 0
        (freshWith (zip [0..<20000] (replicate 20000 (1::uint))), \<lparr>seeds = [], draws = 0\<rparr>))))
     = 20000"
proof -
  let ?cs = "zip [0..<20000] (replicate 20000 (1::uint))"
  let ?g = "\<lparr>seeds = [], draws = 0\<rparr>"
  have len: "length ?cs = 20000" by simp
  have h: "10000 * length ?cs < (2::nat) ^ 64" unfolding len by simp
  have one: "\<forall>c\<in>set ?cs. natWeight snd c = 1"
  proof
    fix c assume "c \<in> set ?cs"
    then have "snd c \<in> set (replicate 20000 (1::uint))"
      by (metis prod.collapse set_zip_rightD)
    then have "snd c = 1" by simp
    then show "natWeight snd c = 1" by (simp add: natWeight_def normWeight_def)
  qed
  have S: "natSum snd ?cs = 20000" using natSum_all_one[OF one] len by simp
  have "(\<Sum>c\<leftarrow>?cs. natCount 20000 (natWeight snd c)) = (\<Sum>c\<leftarrow>?cs. 1)"
    using one by (intro arg_cong[where f = sum_list] map_cong refl) (simp add: natCount_def roundDiv_def)
  also have "\<dots> = length ?cs" by (simp only: sum_list_triv) simp
  finally have "(\<Sum>c\<leftarrow>?cs. natCount 20000 (natWeight snd c)) = 20000" using len by simp
  then have eq: "length (array (fst (Start snd 0 (freshWith ?cs, ?g)))) = 20000"
    unfolding Start_freshWith_array[OF h] length_expansion unat_sumWeightOf[OF h] S
    by simp
  show ?thesis using h eq Start_array_bound[OF h, of snd 0 ?g] by blast
qed

text \<open>
  The bound 10000 itself fails: six candidates of weight 200 get 1667 entries each.
\<close>

theorem Start_array_exceeds_10000:
  "\<not> length (array (fst (Start snd 0
        (freshWith [(1::nat, 200::uint), (2, 200), (3, 200), (4, 200), (5, 200), (6, 200)],
         \<lparr>seeds = [], draws = 0\<rparr>)))) \<le> 10000"
proof -
  let ?cs = "[(1::nat, 200::uint), (2, 200), (3, 200), (4, 200), (5, 200), (6, 200)]"
  have h: "10000 * length ?cs < (2::nat) ^ 64" by simp
  have w: "natWeight snd (i, 200) = 200" for i :: nat
    by (simp add: natWeight_def normWeight_def)
  have S: "natSum snd ?cs = 1200" by (simp add: natSum_def w)
  have c: "natCount 1200 200 = 1667" by (simp add: natCount_def roundDiv_def)
  have "length (array (fst (Start snd 0 (freshWith ?cs, \<lparr>seeds = [], draws = 0\<rparr>)))) = 10002"
    unfolding Start_freshWith_array[OF h] length_expansion unat_sumWeightOf[OF h] S
    by (simp add: w c)
  then show ?thesis by simp
qed

text \<open>
  C8 (as amended). On a freshly created instance, after \<^verbatim>\<open>Start\<close> with the empty
  candidate list \<^verbatim>\<open>Next\<close> returns none on every call; after \<^verbatim>\<open>Start\<close> with a
  non-empty list of at most 20000 candidates, \<^verbatim>\<open>Next\<close> returns one of them on every
  call.
\<close>

theorem Next_after_fresh_Start:
  assumes "length cs \<le> 20000"
  shows "(cs = [] \<longrightarrow> (\<forall>r. fst (Next r (Start wt now (freshWith cs, g))) = Inr None))
       \<and> (cs \<noteq> [] \<longrightarrow> (\<forall>r. \<exists>c\<in>set cs. fst (Next r (Start wt now (freshWith cs, g))) = Inr (Some c)))"
proof -
  obtain s g' where st: "Start wt now (freshWith cs, g) = (s, g')"
    by (cases "Start wt now (freshWith cs, g)") auto
  have small: "10000 * length cs < 2 ^ 64" using assms by simp
  have "countInv (fst (Start wt now (freshWith cs, g)))"
    by (rule Start_countInv) (rule freshWith_countInv)
  then have inv: "countInv s" by (simp add: st)
  have len: "length (array s) < 2 ^ 63"
    using Start_freshWith_small[OF small, of wt now g] by (simp add: st)
  have sub: "set (array s) \<subseteq> set cs"
    using Start_freshWith_subset[of wt now cs g] by (simp add: st)
  have nxt: "fst (Next r (s, g')) =
           (if array s = [] then Inr None
            else Inr (Some (array s ! (r mod length (array s)))))" for r
    by (rule Next_in_range[OF inv len])
  have 1: "fst (Next r (s, g')) = Inr None" if "cs = []" for r
    using that sub nxt[of r] by simp
  have 2: "\<exists>c\<in>set cs. fst (Next r (s, g')) = Inr (Some c)" if "cs \<noteq> []" for r
  proof -
    have ne: "array s \<noteq> []"
      using Start_freshWith_nonempty[OF that assms, of wt now g] by (simp add: st)
    then have "array s ! (r mod length (array s)) \<in> set (array s)" by simp
    then show ?thesis using ne sub nxt[of r] by auto
  qed
  show ?thesis unfolding st using 1 2 by blast
qed

theorem Next_after_fresh_Start_witness:
  "length [3::nat, 4] \<le> 20000 \<and> [3::nat, 4] \<noteq> []
 \<and> (\<forall>r. \<exists>c\<in>set [3::nat, 4].
        fst (Next r (Start of_nat 0 (freshWith [3::nat, 4], \<lparr>seeds = [], draws = 0\<rparr>))) = Inr (Some c))
 \<and> length ([] :: nat list) \<le> 20000
 \<and> (\<forall>r. fst (Next r (Start of_nat 0 (freshWith ([] :: nat list), \<lparr>seeds = [], draws = 0\<rparr>))) = Inr None)"
proof -
  have h1: "length [3::nat, 4] \<le> 20000" by simp
  have h2: "length ([] :: nat list) \<le> 20000" by simp
  show ?thesis
    using Next_after_fresh_Start[OF h1, of of_nat 0 "\<lparr>seeds = [], draws = 0\<rparr>"]
      Next_after_fresh_Start[OF h2, of of_nat 0 "\<lparr>seeds = [], draws = 0\<rparr>"]
    by simp
qed

text \<open>
  Without the bound on the number of candidates the property fails: with 20001 candidates
  of weight 1 every count rounds to 0, the array stays empty and \<^verbatim>\<open>Next\<close> returns none.
\<close>

theorem Next_none_for_many_candidates:
  "zip [0..<20001] (replicate 20001 (1::uint)) \<noteq> []
 \<and> fst (Next 0 (Start snd 0
        (freshWith (zip [0..<20001] (replicate 20001 (1::uint))), \<lparr>seeds = [], draws = 0\<rparr>))) = Inr None"
proof -
  let ?cs = "zip [0..<20001] (replicate 20001 (1::uint))"
  let ?g = "\<lparr>seeds = [], draws = 0\<rparr>"
  have len: "length ?cs = 20001" by simp
  have h: "10000 * length ?cs < (2::nat) ^ 64" unfolding len by simp
  have one: "\<forall>c\<in>set ?cs. natWeight snd c = 1"
  proof
    fix c assume "c \<in> set ?cs"
    then have "snd c \<in> set (replicate 20001 (1::uint))"
      by (metis prod.collapse set_zip_rightD)
    then have "snd c = 1" by simp
    then show "natWeight snd c = 1" by (simp add: natWeight_def normWeight_def)
  qed
  have S: "natSum snd ?cs = 20001" using natSum_all_one[OF one] len by simp
  have "(\<Sum>c\<leftarrow>?cs. natCount 20001 (natWeight snd c)) = (\<Sum>c\<leftarrow>?cs. 0)"
    using one by (intro arg_cong[where f = sum_list] map_cong refl) (simp add: natCount_def roundDiv_def)
  then have "length (array (fst (Start snd 0 (freshWith ?cs, ?g)))) = 0"
    unfolding Start_freshWith_array[OF h] length_expansion unat_sumWeightOf[OF h] S
    by simp
  then have empty: "array (fst (Start snd 0 (freshWith ?cs, ?g))) = []" by simp
  have inv: "countInv (fst (Start snd 0 (freshWith ?cs, ?g)))"
    by (rule Start_countInv) (rule freshWith_countInv)
  obtain s g' where st: "Start snd 0 (freshWith ?cs, ?g) = (s, g')"
    by (cases "Start snd 0 (freshWith ?cs, ?g)") auto
  have "count s = 0" using inv empty by (simp add: st countInv_def)
  then have "fst (Next 0 (s, g')) = Inr None" by (simp add: Next_def)
  moreover have "?cs \<noteq> []" using len by (metis length_0_conv zero_neq_numeral)
  ultimately show ?thesis by (simp only: st simp_thms)
qed

text \<open>
  C10. After any sequence of \<^verbatim>\<open>Start\<close> calls on an instance, with any candidates and
  weights at each call, the stored \<open>count\<close> equals the length of \<open>array\<close>, and no
  \<^verbatim>\<open>Next\<close> call indexes the array out of range. (The length of a Go slice is an
  \<^verbatim>\<open>int\<close>, hence below \<open>2 ^ 63\<close>.)
\<close>

theorem count_equals_array_length:
  assumes "length (array (fst (runStarts calls (newRandomScheduling, g)))) < 2 ^ 63"
  shows "unat (count (fst (runStarts calls (newRandomScheduling, g)))) =
           length (array (fst (runStarts calls (newRandomScheduling, g))))
       \<and> (\<forall>r. fst (Next r (runStarts calls (newRandomScheduling, g))) \<noteq> Inl IndexOutOfRange)"
proof -
  obtain s g' where st: "runStarts calls (newRandomScheduling, g) = (s, g')"
    by (cases "runStarts calls (newRandomScheduling, g)") auto
  have "countInv (fst (runStarts calls (newRandomScheduling, g)))"
    by (rule runStarts_countInv) (simp add: new_countInv)
  then have inv: "countInv s" by (simp add: st)
  have small: "length (array s) < 2 ^ 63" using assms by (simp add: st)
  show ?thesis
    unfolding st using unat_count[OF inv small] Next_in_range[OF inv small, of _ g'] by simp
qed

theorem count_equals_array_length_witness:
  "length (array (fst (runStarts [(of_nat, 0, [3, 0::nat]), (of_nat, 7, [2])]
       (newRandomScheduling, \<lparr>seeds = [], draws = 0\<rparr>)))) < 2 ^ 63
   \<and> unat (count (fst (runStarts [(of_nat, 0, [3, 0::nat]), (of_nat, 7, [2])]
       (newRandomScheduling, \<lparr>seeds = [], draws = 0\<rparr>)))) =
     length (array (fst (runStarts [(of_nat, 0, [3, 0::nat]), (of_nat, 7, [2])]
       (newRandomScheduling, \<lparr>seeds = [], draws = 0\<rparr>))))
   \<and> (\<forall>r. fst (Next r (runStarts [(of_nat, 0, [3, 0::nat]), (of_nat, 7, [2])]
       (newRandomScheduling, \<lparr>seeds = [], draws = 0\<rparr>))) \<noteq> Inl IndexOutOfRange)"
proof -
  have "array (fst (runStarts [(of_nat, 0, [3, 0::nat]), (of_nat, 7, [2])]
       (newRandomScheduling, \<lparr>seeds = [], draws = 0\<rparr>))) = [3, 3, 3, 0, 2, 2]"
    by code_simp
  then have h: "length (array (fst (runStarts [(of_nat, 0, [3, 0::nat]), (of_nat, 7, [2])]
       (newRandomScheduling, \<lparr>seeds = [], draws = 0\<rparr>)))) < 2 ^ 63"
    by simp
  show ?thesis using h count_equals_array_length[OF h] by blast
qed

section \<open>Properties of the server configuration\<close>

lemma strings_Split_nonempty: "strings_Split s sep \<noteq> []"
  by (induction s) (auto split: list.splits)

lemma piecesMatch_list_all2:
  "length pieces1 = length pieces2 \<Longrightarrow>
     piecesMatch pieces1 pieces2 = list_all2 (\<lambda>h p. h = p \<or> p = ''*'' \<or> p = '''') pieces1 pieces2"
  by (induction pieces1 pieces2 rule: list_induct2) auto

lemma segmentMatch_pieces:
  "segmentMatch host testName \<longleftrightarrow>
     length (strings_Split host (CHR ''.'')) = length (strings_Split testName (CHR ''.''))
     \<and> piecesMatch (strings_Split host (CHR ''.'')) (strings_Split testName (CHR ''.''))"
  using piecesMatch_list_all2 list_all2_lengthD
  unfolding segmentMatch_def by blast

lemma matchNames_find:
  "matchNames name (strings_Split name (CHR ''.'')) names =
     (case find (nameHit name) names of
        None \<Rightarrow> ('''', False)
      | Some n \<Rightarrow> if n = name then (n, True) else ('''', True))"
proof (induction names)
  case Nil
  then show ?case by simp
next
  case (Cons testName rest)
  show ?case
  proof (cases "nameHit name testName")
    case True
    then show ?thesis
      by (auto simp: nameHit_def segmentMatch_pieces Let_def)
  next
    case False
    then show ?thesis using Cons
      by (auto simp: nameHit_def segmentMatch_pieces Let_def)
  qed
qed

lemma MatchName_find:
  "MatchName this host =
     (if host = [] then ('''', False)
      else case find (nameHit host) (Name this) of
             None \<Rightarrow> ('''', False)
           | Some n \<Rightarrow> if n = host then (n, True) else ('''', True))"
  by (simp add: MatchName_def matchNames_find)

lemma NextBackend_Some:
  assumes "fst (NextBackend now r this g) = Some b"
  shows "b \<in> set (Backends this) \<and> On_backend b \<and> \<not> IsDown b"
proof -
  let ?av = "filter (\<lambda>backend. On_backend backend \<and> \<not> IsDown backend) (Backends this)"
  have ne: "?av \<noteq> []" using assms by (auto simp: NextBackend_def Let_def split: if_splits)
  then have "b = ?av ! (r mod length ?av)"
    using assms by (auto simp: NextBackend_def Let_def split: if_splits)
  moreover have "r mod length ?av < length ?av" using ne by simp
  ultimately have "b \<in> set ?av" using nth_mem by metis
  then show ?thesis by simp
qed

lemma NextBackend_None:
  "fst (NextBackend now r this g) = None \<longleftrightarrow>
     \<not> (\<exists>b\<in>set (Backends this). On_backend b \<and> \<not> IsDown b)"
  by (auto simp: NextBackend_def Let_def filter_empty_conv)

subsection \<open>Claims about the server configuration\<close>

text \<open>
  C3 (as amended). For every non-empty host that no configured name equals and that some
  non-empty configured name matches segment by segment, \<^verbatim>\<open>MatchName\<close> returns
  \<open>matched = true\<close> and the empty string as the matched name.
\<close>

theorem MatchName_wildcard_result:
  assumes "host \<noteq> []" "host \<notin> set (Name this)"
    and "\<exists>n\<in>set (Name this). n \<noteq> [] \<and> segmentMatch host n"
  shows "MatchName this host = ('''', True)"
proof -
  obtain n where n: "n \<in> set (Name this)" "nameHit host n"
    using assms(3) by (auto simp: nameHit_def)
  then have "find (nameHit host) (Name this) \<noteq> None" by (auto simp: find_None_iff)
  then obtain m where m: "find (nameHit host) (Name this) = Some m" by auto
  then have "m \<in> set (Name this)" by (auto simp: find_Some_iff)
  then have "m \<noteq> host" using assms(2) by auto
  then show ?thesis using assms(1) m by (simp add: MatchName_find)
qed

theorem MatchName_wildcard_result_witness:
  "''x.b.com'' \<noteq> []
 \<and> ''x.b.com'' \<notin> set (Name \<lparr>On_server = True, Id_server = ''s'', Name = [''*.b.com''],
        Backends = [], Filename = '''', Fastcgi = []\<rparr>)
 \<and> (\<exists>n\<in>set (Name \<lparr>On_server = True, Id_server = ''s'', Name = [''*.b.com''],
        Backends = [], Filename = '''', Fastcgi = []\<rparr>). n \<noteq> [] \<and> segmentMatch ''x.b.com'' n)
 \<and> MatchName \<lparr>On_server = True, Id_server = ''s'', Name = [''*.b.com''],
        Backends = [], Filename = '''', Fastcgi = []\<rparr> ''x.b.com'' = ('''', True)"
proof -
  have h1: "''x.b.com'' \<noteq> []" by simp
  have h2: "''x.b.com'' \<notin> set (Name \<lparr>On_server = True, Id_server = ''s'', Name = [''*.b.com''],
        Backends = [], Filename = '''', Fastcgi = []\<rparr>)" by simp
  have h3: "\<exists>n\<in>set (Name \<lparr>On_server = True, Id_server = ''s'', Name = [''*.b.com''],
        Backends = [], Filename = '''', Fastcgi = []\<rparr>). n \<noteq> [] \<and> segmentMatch ''x.b.com'' n"
    by (simp add: segmentMatch_def)
  show ?thesis using h1 h2 h3 MatchName_wildcard_result[OF h1 h2 h3] by blast
qed

text \<open>
  The matched name of a wildcard match is not the requested host.
\<close>

theorem MatchName_wildcard_not_host:
  "\<not> MatchName \<lparr>On_server = True, Id_server = ''s'', Name = [''*.b.com''],
        Backends = [], Filename = '''', Fastcgi = []\<rparr> ''x.b.com'' = (''x.b.com'', True)"
  by (simp add: MatchName_def Let_def)

text \<open>
  C5. \<^verbatim>\<open>NextBackend\<close> picks among the backends that are on and not down, and returns
  none exactly when there is no such backend (the two lemmas above). \<^verbatim>\<open>NextFastcgi\<close>
  does not: on a server whose only fastcgi entry is off and down it returns that entry.
\<close>

theorem NextFastcgi_returns_unavailable:
  "fst (NextFastcgi 0 0
     \<lparr>On_server = True, Id_server = ''s'', Name = [], Backends = [], Filename = '''',
      Fastcgi = [\<lparr>Pass = ''127.0.0.1:9000'', On_fastcgi = False, IsDown_fastcgi = True\<rparr>]\<rparr>
     \<lparr>seeds = [], draws = 0\<rparr>)
   = Some \<lparr>Pass = ''127.0.0.1:9000'', On_fastcgi = False, IsDown_fastcgi = True\<rparr>"
  by (simp add: NextFastcgi_def)

text \<open>
  C6 (as amended). \<^verbatim>\<open>RandomScheduling.Next\<close> never reseeds the generator, and
  \<^verbatim>\<open>Start\<close> reseeds it once when the sum of the weights is not zero and not at all
  otherwise. \<^verbatim>\<open>NextBackend\<close> and \<^verbatim>\<open>NextFastcgi\<close> reseed it with the current time on
  every call that picks an entry, and leave it alone when they return none.
\<close>

theorem reseeding:
  "seeds (snd (Next r (s, g))) = seeds g
 \<and> seeds (snd (Start wt now (s, g))) =
     (if sumWeightOf wt (Candidates s) = 0 then seeds g else now # seeds g)
 \<and> seeds (snd (NextBackend now r this g)) =
     (if filter (\<lambda>backend. On_backend backend \<and> \<not> IsDown backend) (Backends this) = []
      then seeds g else now # seeds g)
 \<and> seeds (snd (NextFastcgi now r this g)) =
     (if Fastcgi this = [] then seeds g else now # seeds g)"
  by (auto simp: Next_def Start_def NextBackend_def NextFastcgi_def Let_def rand_Seed_def rand_Int_def)

text \<open>
  \<^verbatim>\<open>NextBackend\<close> does reseed: a call that picks the one available backend at time 5
  leaves 5 as the latest seed.
\<close>

theorem NextBackend_reseeds:
  "seeds (snd (NextBackend 5 0
     \<lparr>On_server = True, Id_server = ''s'', Name = [],
      Backends = [\<lparr>Id_backend = ''b1'', On_backend = True, IsDown = False, CurrentFails = 0\<rparr>],
      Filename = '''', Fastcgi = []\<rparr>
     \<lparr>seeds = [], draws = 0\<rparr>)) = [5]
 \<and> seeds (snd (NextBackend 5 0
     \<lparr>On_server = True, Id_server = ''s'', Name = [],
      Backends = [\<lparr>Id_backend = ''b1'', On_backend = True, IsDown = False, CurrentFails = 0\<rparr>],
      Filename = '''', Fastcgi = []\<rparr>
     \<lparr>seeds = [], draws = 0\<rparr>)) \<noteq> seeds \<lparr>seeds = [], draws = 0\<rparr>"
  by (simp add: NextBackend_def rand_Seed_def rand_Int_def)

text \<open>
  C7 (as amended). \<^verbatim>\<open>MatchName\<close> returns the empty string and \<open>false\<close> for the
  empty host. Otherwise it goes through the configured names in order, skipping empty
  ones, and stops at the first name that equals the host or matches it segment by segment
  (the same number of dot-separated segments, a configured segment \<open>*\<close> or an empty one
  matching any value): it returns that name and \<open>true\<close> when the name equals the host,
  the empty string and \<open>true\<close> when it only matches, and the empty string and \<open>false\<close>
  when no name is hit. In particular host \<open>a.b.com\<close> against \<open>a.b.com\<close> gives
  \<open>(a.b.com, true)\<close>, host \<open>x.b.com\<close> against \<open>*.b.com\<close> gives \<open>true\<close>, and host
  \<open>a.b.com\<close> against \<open>a.b.c.com\<close> gives \<open>false\<close>.
\<close>

theorem MatchName_first_hit:
  "MatchName this host =
     (if host = [] then ('''', False)
      else case find (nameHit host) (Name this) of
             None \<Rightarrow> ('''', False)
           | Some n \<Rightarrow> if n = host then (n, True) else ('''', True))
 \<and> MatchName (this\<lparr>Name := [''a.b.com'']\<rparr>) ''a.b.com'' = (''a.b.com'', True)
 \<and> snd (MatchName (this\<lparr>Name := [''*.b.com'']\<rparr>) ''x.b.com'') = True
 \<and> snd (MatchName (this\<lparr>Name := [''a.b.c.com'']\<rparr>) ''a.b.com'') = False"
proof -
  have 1: "MatchName (this\<lparr>Name := [''a.b.com'']\<rparr>) ''a.b.com'' = (''a.b.com'', True)"
    by (simp add: MatchName_def)
  have 2: "snd (MatchName (this\<lparr>Name := [''*.b.com'']\<rparr>) ''x.b.com'') = True"
    by (simp add: MatchName_def Let_def)
  have 3: "snd (MatchName (this\<lparr>Name := [''a.b.c.com'']\<rparr>) ''a.b.com'') = False"
    by (simp add: MatchName_def Let_def)
  show ?thesis using MatchName_find[of this host] 1 2 3 by blast
qed

text \<open>
  A host that equals a configured name does not always get that name back: a matching
  wildcard name earlier in the list wins, and the matched name is empty.
\<close>

theorem MatchName_exact_after_wildcard:
  "''a.b.com'' \<in> set (Name \<lparr>On_server = True, Id_server = ''s'', Name = [''*.b.com'', ''a.b.com''],
        Backends = [], Filename = '''', Fastcgi = []\<rparr>)
 \<and> MatchName \<lparr>On_server = True, Id_server = ''s'', Name = [''*.b.com'', ''a.b.com''],
        Backends = [], Filename = '''', Fastcgi = []\<rparr> ''a.b.com'' = ('''', True)
 \<and> MatchName \<lparr>On_server = True, Id_server = ''s'', Name = [''*.b.com'', ''a.b.com''],
        Backends = [], Filename = '''', Fastcgi = []\<rparr> ''a.b.com'' \<noteq> (''a.b.com'', True)"
  by (simp add: MatchName_def Let_def)

section \<open>Properties of the online action\<close>

text \<open>
  C9. When the configuration loads and the running server, the backend list and the
  backend with the given id are all found, the online action sets that backend's
  \<open>IsDown\<close> to false and its \<open>CurrentFails\<close> to 0, leaves every other backend and field
  as it was, and calls \<^verbatim>\<open>SetupScheduling(false)\<close> on the running server. When the
  backend is not reached, the runtime is unchanged.
\<close>

theorem OnlineAction_Run_effect:
  "(NewServerConfigFromFile readYAML (Server ps) = Inr server
     \<and> FindServer w (Id_server server) = Some runningServer
     \<and> FindBackendList w runningServer (LocationId ps) (Websocket ps) = Some backendList
     \<and> FindBackend w backendList (BackendId ps) = Some backend
    \<longrightarrow> OnlineAction_Run readYAML FindServer FindBackendList FindBackend ps w =
          (w\<lparr>backendAt := (backendAt w)
               (backend := (backendAt w backend)\<lparr>IsDown := False, CurrentFails := 0\<rparr>),
             setupCalls := setupCalls w @ [(runningServer, False)]\<rparr>, Success)
        \<and> IsDown (backendAt (fst (OnlineAction_Run readYAML FindServer FindBackendList FindBackend ps w)) backend) = False
        \<and> CurrentFails (backendAt (fst (OnlineAction_Run readYAML FindServer FindBackendList FindBackend ps w)) backend) = 0
        \<and> setupCalls (fst (OnlineAction_Run readYAML FindServer FindBackendList FindBackend ps w)) =
            setupCalls w @ [(runningServer, False)])
 \<and> (\<not> (\<exists>srv rs bl b. NewServerConfigFromFile readYAML (Server ps) = Inr srv
          \<and> FindServer w (Id_server srv) = Some rs
          \<and> FindBackendList w rs (LocationId ps) (Websocket ps) = Some bl
          \<and> FindBackend w bl (BackendId ps) = Some b)
    \<longrightarrow> fst (OnlineAction_Run readYAML FindServer FindBackendList FindBackend ps w) = w)"
  by (auto simp: OnlineAction_Run_def split: sum.splits option.splits)

theorem OnlineAction_Run_effect_witness:
  "NewServerConfigFromFile
     (\<lambda>f. Inr \<lparr>On_server = True, Id_server = ''s1'', Name = [], Backends = [], Filename = '''', Fastcgi = []\<rparr>)
     (Server \<lparr>Server = ''a.conf'', LocationId = ''loc1'', Websocket = False, BackendId = ''b1''\<rparr>)
     = Inr \<lparr>On_server = True, Id_server = ''s1'', Name = [], Backends = [], Filename = ''a.conf'', Fastcgi = []\<rparr>
 \<and> IsDown (backendAt (fst (OnlineAction_Run
       (\<lambda>f. Inr \<lparr>On_server = True, Id_server = ''s1'', Name = [], Backends = [], Filename = '''', Fastcgi = []\<rparr>)
       (\<lambda>w i. if i = ''s1'' then Some (1::nat) else None)
       (\<lambda>w rs loc ws. if loc = ''loc1'' then Some (2::nat) else None)
       (\<lambda>w bl bid. if bid = ''b1'' then Some 7 else None)
       \<lparr>Server = ''a.conf'', LocationId = ''loc1'', Websocket = False, BackendId = ''b1''\<rparr>
       \<lparr>backendAt = (\<lambda>a. \<lparr>Id_backend = ''b1'', On_backend = True, IsDown = True, CurrentFails = 3\<rparr>),
        setupCalls = []\<rparr>)) 7) = False
 \<and> CurrentFails (backendAt (fst (OnlineAction_Run
       (\<lambda>f. Inr \<lparr>On_server = True, Id_server = ''s1'', Name = [], Backends = [], Filename = '''', Fastcgi = []\<rparr>)
       (\<lambda>w i. if i = ''s1'' then Some (1::nat) else None)
       (\<lambda>w rs loc ws. if loc = ''loc1'' then Some (2::nat) else None)
       (\<lambda>w bl bid. if bid = ''b1'' then Some 7 else None)
       \<lparr>Server = ''a.conf'', LocationId = ''loc1'', Websocket = False, BackendId = ''b1''\<rparr>
       \<lparr>backendAt = (\<lambda>a. \<lparr>Id_backend = ''b1'', On_backend = True, IsDown = True, CurrentFails = 3\<rparr>),
        setupCalls = []\<rparr>)) 7) = 0
 \<and> setupCalls (fst (OnlineAction_Run
       (\<lambda>f. Inr \<lparr>On_server = True, Id_server = ''s1'', Name = [], Backends = [], Filename = '''', Fastcgi = []\<rparr>)
       (\<lambda>w i. if i = ''s1'' then Some (1::nat) else None)
       (\<lambda>w rs loc ws. if loc = ''loc1'' then Some (2::nat) else None)
       (\<lambda>w bl bid. if bid = ''b1'' then Some 7 else None)
       \<lparr>Server = ''a.conf'', LocationId = ''loc1'', Websocket = False, BackendId = ''b1''\<rparr>
       \<lparr>backendAt = (\<lambda>a. \<lparr>Id_backend = ''b1'', On_backend = True, IsDown = True, CurrentFails = 3\<rparr>),
        setupCalls = []\<rparr>)) = [(1, False)]
 \<and> fst (OnlineAction_Run
       (\<lambda>f. Inr \<lparr>On_server = True, Id_server = ''s1'', Name = [], Backends = [], Filename = '''', Fastcgi = []\<rparr>)
       (\<lambda>w i. if i = ''s1'' then Some (1::nat) else None)
       (\<lambda>w rs loc ws. if loc = ''loc1'' then Some (2::nat) else None)
       (\<lambda>w bl bid. if bid = ''b1'' then Some 7 else None)
       \<lparr>Server = ''a.conf'', LocationId = ''loc1'', Websocket = False, BackendId = ''zz''\<rparr>
       \<lparr>backendAt = (\<lambda>a. \<lparr>Id_backend = ''b1'', On_backend = True, IsDown = True, CurrentFails = 3\<rparr>),
        setupCalls = []\<rparr>)
     = \<lparr>backendAt = (\<lambda>a. \<lparr>Id_backend = ''b1'', On_backend = True, IsDown = True, CurrentFails = 3\<rparr>),
        setupCalls = []\<rparr>"
proof -
  let ?yaml = "\<lambda>f::string. (Inr \<lparr>On_server = True, Id_server = ''s1'', Name = [], Backends = [],
                   Filename = '''', Fastcgi = []\<rparr> :: string + ServerConfig)"
  let ?fs = "\<lambda>(w::nat runtime) i. if i = ''s1'' then Some (1::nat) else None"
  let ?fl = "\<lambda>(w::nat runtime) (rs::nat) loc (ws::bool). if loc = ''loc1'' then Some (2::nat) else None"
  let ?fb = "\<lambda>(w::nat runtime) (bl::nat) bid. if bid = ''b1'' then Some (7::nat) else None"
  let ?w = "\<lparr>backendAt = (\<lambda>a. \<lparr>Id_backend = ''b1'', On_backend = True, IsDown = True, CurrentFails = 3\<rparr>),
        setupCalls = []\<rparr> :: nat runtime"
  let ?ps = "\<lparr>Server = ''a.conf'', LocationId = ''loc1'', Websocket = False, BackendId = ''b1''\<rparr>"
  let ?ps' = "\<lparr>Server = ''a.conf'', LocationId = ''loc1'', Websocket = False, BackendId = ''zz''\<rparr>"
  let ?srv = "\<lparr>On_server = True, Id_server = ''s1'', Name = [], Backends = [], Filename = ''a.conf'', Fastcgi = []\<rparr>"
  have load: "NewServerConfigFromFile ?yaml (Server ?ps) = Inr ?srv"
    by (simp add: NewServerConfigFromFile_def)
  have found: "?fs ?w (Id_server ?srv) = Some 1 \<and> ?fl ?w 1 (LocationId ?ps) (Websocket ?ps) = Some 2
      \<and> ?fb ?w 2 (BackendId ?ps) = Some 7" by simp
  have missing: "\<not> (\<exists>srv rs bl b. NewServerConfigFromFile ?yaml (Server ?ps') = Inr srv
          \<and> ?fs ?w (Id_server srv) = Some rs
          \<and> ?fl ?w rs (LocationId ?ps') (Websocket ?ps') = Some bl
          \<and> ?fb ?w bl (BackendId ?ps') = Some b)" by simp
  show ?thesis
    using load found missing
      OnlineAction_Run_effect[of ?yaml ?ps ?srv ?fs ?w 1 ?fl 2 ?fb 7]
      OnlineAction_Run_effect[of ?yaml ?ps' ?srv ?fs ?w 1 ?fl 2 ?fb 7]
    by simp
qed

end
